theory Spec2Isabelle
  imports Main "HOL-Library.AList" "HOL-Library.Sublist"
begin

section \<open>The connection manager of \<open>backend/core/websocket_manager.py\<close>\<close>

text \<open>
  The class \<open>ConnectionManager\<close> keeps five dictionaries and drives one asyncio task per
  connected user. The embedding keeps the five dictionaries under their names and adds
  the objects they refer to:
  \<^item> \<open>queues\<close> is the store of \<open>asyncio.Queue\<close> objects, addressed by a reference;
    \<open>asyncio.Queue()\<close> allocates the reference \<open>next_queue\<close>;
  \<^item> \<open>tasks\<close> is the store of the tasks made by \<open>asyncio.create_task\<close>, each with the
    \<open>user_id\<close> argument of its \<open>_send_worker\<close> coroutine and the place where it stands;
  \<^item> \<open>wire\<close> is the sequence of calls made on WebSocket objects, in the order made.

  \<open>active_connections\<close> is an association list in insertion order, as \<open>broadcast\<close>
  iterates over its keys. The other dictionaries are never iterated in an order that
  matters and are maps. A \<open>Set[str]\<close> that the code iterates (\<open>topic_subscribers[topic]\<close>)
  is a list, whose order stands for the iteration order that Python leaves open; a
  \<open>Set[str]\<close> that is never iterated is a set.

  Granularity: every method of the manager is one transition, and so is one iteration of
  the worker's loop. \<open>await websocket.accept()\<close> is taken to return.
\<close>

type_synonym user_id = string
type_synonym topic = string
type_synonym websocket = nat
type_synonym qref = nat
type_synonym tref = nat

text \<open>The calls of the WebSocket interface. The manager makes the first two only.\<close>

datatype 'm ws_call = Accept websocket | SendText websocket 'm | Close websocket

text \<open>
  An \<open>asyncio.Queue()\<close> without \<open>maxsize\<close>: the queued items, oldest first, and the
  counter \<open>_unfinished_tasks\<close> that \<open>put\<close> increments and \<open>task_done\<close> decrements. An
  item is \<open>None\<close> (Python's \<open>None\<close>, the worker's stop signal) or \<open>Some\<close> message.
\<close>

record 'm queue =
  items :: "'m option list"
  unfinished_tasks :: nat

definition new_queue :: "'m queue" where
  "new_queue = \<lparr>items = [], unfinished_tasks = 0\<rparr>"

text \<open>\<open>Queue.put\<close> on a queue without bound: appends, never waits, never evicts.\<close>

definition put :: "'m option \<Rightarrow> 'm queue \<Rightarrow> 'm queue" where
  "put x q = q\<lparr>items := items q @ [x], unfinished_tasks := unfinished_tasks q + 1\<rparr>"

text \<open>
  Where a worker task stands: \<open>Ready\<close> to evaluate \<open>self.send_queues[user_id].get()\<close>,
  \<open>Waiting q\<close> suspended inside \<open>get()\<close> of the queue object \<open>q\<close> that was empty, or
  \<open>Finished\<close> (returned, or cancelled).
\<close>

datatype wstatus = Ready | Waiting qref | Finished

record 'm manager =
  active_connections :: "(user_id \<times> websocket) list"
  user_subscriptions :: "user_id \<rightharpoonup> topic set"
  topic_subscribers :: "topic \<rightharpoonup> user_id list"
  send_queues :: "user_id \<rightharpoonup> qref"
  send_tasks :: "user_id \<rightharpoonup> tref"
  queues :: "qref \<Rightarrow> 'm queue"
  next_queue :: qref
  tasks :: "tref \<rightharpoonup> user_id \<times> wstatus"
  next_task :: tref
  wire :: "'m ws_call list"

text \<open>\<open>__init__\<close>\<close>

definition init :: "'m manager" where
  "init = \<lparr>active_connections = [], user_subscriptions = Map.empty,
     topic_subscribers = Map.empty, send_queues = Map.empty, send_tasks = Map.empty,
     queues = (\<lambda>_. new_queue), next_queue = 0, tasks = Map.empty, next_task = 0,
     wire = []\<rparr>"

subsection \<open>connect and disconnect\<close>

definition connect :: "websocket \<Rightarrow> user_id \<Rightarrow> 'm manager \<Rightarrow> 'm manager" where
  "connect ws u s =
     s\<lparr>wire := wire s @ [Accept ws],
       active_connections := AList.update u ws (active_connections s),
       user_subscriptions := (user_subscriptions s)(u \<mapsto> {}),
       queues := (queues s)(next_queue s := new_queue),
       send_queues := (send_queues s)(u \<mapsto> next_queue s),
       next_queue := Suc (next_queue s),
       tasks := (tasks s)(next_task s \<mapsto> (u, Ready)),
       send_tasks := (send_tasks s)(u \<mapsto> next_task s),
       next_task := Suc (next_task s)\<rparr>"

text \<open>
  \<open>task.cancel()\<close> followed by \<open>await task\<close>: the worker receives \<open>CancelledError\<close> where it
  is suspended and returns; a task that has finished stays finished.
\<close>

definition cancel :: "tref \<Rightarrow> 'm manager \<Rightarrow> 'm manager" where
  "cancel t s =
     (case tasks s t of
        None \<Rightarrow> s
      | Some (w, st) \<Rightarrow> s\<lparr>tasks := (tasks s)(t \<mapsto> (w, Finished))\<rparr>)"

definition disconnect :: "user_id \<Rightarrow> 'm manager \<Rightarrow> 'm manager" where
  "disconnect u s =
     (let s1 = (case send_tasks s u of
                  None \<Rightarrow> s
                | Some t \<Rightarrow> (cancel t s)\<lparr>send_tasks := (send_tasks s)(u := None)\<rparr>)
      in s1\<lparr>send_queues := (send_queues s1)(u := None),
            active_connections := AList.delete u (active_connections s1),
            user_subscriptions := (user_subscriptions s1)(u := None),
            topic_subscribers := (\<lambda>T. map_option (removeAll u) (topic_subscribers s1 T))\<rparr>)"

subsection \<open>The delivery loop\<close>

text \<open>
  The worker leaves its loop: by \<open>break\<close>, or by an exception caught by one of the
  handlers around the loop.
\<close>

definition finish :: "tref \<Rightarrow> user_id \<Rightarrow> 'm manager \<Rightarrow> 'm manager" where
  "finish t u s = s\<lparr>tasks := (tasks s)(t \<mapsto> (u, Finished))\<rparr>"

text \<open>
  \<open>self.send_queues[user_id].task_done()\<close>: \<open>KeyError\<close> when the user has no queue,
  \<open>ValueError\<close> when the counter is not positive; both end the worker through
  \<open>except Exception\<close>. Otherwise the loop goes round.
\<close>

definition task_done :: "tref \<Rightarrow> user_id \<Rightarrow> 'm manager \<Rightarrow> 'm manager" where
  "task_done t u s =
     (case send_queues s u of
        None \<Rightarrow> finish t u s
      | Some q \<Rightarrow>
          if unfinished_tasks (queues s q) = 0 then finish t u s
          else s\<lparr>queues := (queues s)
                   (q := (queues s q)\<lparr>unfinished_tasks := unfinished_tasks (queues s q) - 1\<rparr>),
                 tasks := (tasks s)(t \<mapsto> (u, Ready))\<rparr>)"

text \<open>
  The loop body once \<open>get()\<close> has returned \<open>message\<close>. \<open>ok\<close> tells whether
  \<open>send_text(json.dumps(message))\<close> returns; when it raises, nothing reaches the wire.
\<close>

definition deliver :: "bool \<Rightarrow> tref \<Rightarrow> user_id \<Rightarrow> 'm option \<Rightarrow> 'm manager \<Rightarrow> 'm manager" where
  "deliver ok t u message s =
     (case message of
        None \<Rightarrow> finish t u s
      | Some m \<Rightarrow>
          (case map_of (active_connections s) u of
             Some ws \<Rightarrow>
               if ok then task_done t u (s\<lparr>wire := wire s @ [SendText ws m]\<rparr>)
               else finish t u s
           | None \<Rightarrow> task_done t u s))"

text \<open>
  \<open>get()\<close> on the queue object \<open>q\<close>: suspends while the queue is empty, otherwise takes
  the head.
\<close>

definition get_from :: "bool \<Rightarrow> tref \<Rightarrow> user_id \<Rightarrow> qref \<Rightarrow> 'm manager \<Rightarrow> 'm manager" where
  "get_from ok t u q s =
     (case items (queues s q) of
        [] \<Rightarrow> s\<lparr>tasks := (tasks s)(t \<mapsto> (u, Waiting q))\<rparr>
      | x # xs \<Rightarrow>
          deliver ok t u x (s\<lparr>queues := (queues s)(q := (queues s q)\<lparr>items := xs\<rparr>)\<rparr>))"

text \<open>
  One scheduling of the task \<open>t\<close> running \<open>_send_worker\<close>: a ready worker looks its queue
  up by user id (\<open>KeyError\<close> ends it), a waiting one resumes inside the queue object it
  waits on, a finished one does nothing.
\<close>

definition send_worker :: "bool \<Rightarrow> tref \<Rightarrow> 'm manager \<Rightarrow> 'm manager" where
  "send_worker ok t s =
     (case tasks s t of
        None \<Rightarrow> s
      | Some (u, Finished) \<Rightarrow> s
      | Some (u, Waiting q) \<Rightarrow> get_from ok t u q s
      | Some (u, Ready) \<Rightarrow>
          (case send_queues s u of
             None \<Rightarrow> finish t u s
           | Some q \<Rightarrow> get_from ok t u q s))"

subsection \<open>Sending\<close>

text \<open>
  \<open>put_ok\<close> tells whether \<open>put\<close> returns; when it raises, the handler disconnects the
  user. Nothing is raised to the caller either way.
\<close>

definition send_personal_message :: "bool \<Rightarrow> 'm option \<Rightarrow> user_id \<Rightarrow> 'm manager \<Rightarrow> 'm manager" where
  "send_personal_message put_ok message u s =
     (case send_queues s u of
        None \<Rightarrow> s
      | Some q \<Rightarrow>
          if put_ok then s\<lparr>queues := (queues s)(q := put message (queues s q))\<rparr>
          else disconnect u s)"

text \<open>
  The loop of \<open>broadcast\<close> over \<open>list(self.active_connections.keys())\<close>. As
  \<open>send_personal_message\<close> raises nothing, the handler around the call is never entered,
  \<open>disconnected_users\<close> stays empty and the second loop does nothing.
\<close>

fun broadcast_loop :: "(user_id \<Rightarrow> bool) \<Rightarrow> 'm option \<Rightarrow> user_id list \<Rightarrow> 'm manager \<Rightarrow> 'm manager" where
  "broadcast_loop put_ok message [] s = s"
| "broadcast_loop put_ok message (u # us) s =
     broadcast_loop put_ok message us (send_personal_message (put_ok u) message u s)"

definition broadcast :: "(user_id \<Rightarrow> bool) \<Rightarrow> 'm option \<Rightarrow> 'm manager \<Rightarrow> 'm manager" where
  "broadcast put_ok message s =
     broadcast_loop put_ok message (map fst (active_connections s)) s"

text \<open>The loop of \<open>broadcast_to_topic\<close> over \<open>list(self.topic_subscribers[topic])\<close>.\<close>

fun topic_loop :: "(user_id \<Rightarrow> bool) \<Rightarrow> 'm option \<Rightarrow> user_id list \<Rightarrow> 'm manager \<Rightarrow> 'm manager" where
  "topic_loop put_ok message [] s = s"
| "topic_loop put_ok message (u # us) s =
     topic_loop put_ok message us
       (if map_of (active_connections s) u \<noteq> None
        then send_personal_message (put_ok u) message u s else s)"

definition broadcast_to_topic :: "(user_id \<Rightarrow> bool) \<Rightarrow> 'm option \<Rightarrow> topic \<Rightarrow> 'm manager \<Rightarrow> 'm manager" where
  "broadcast_to_topic put_ok message T s =
     (case topic_subscribers s T of
        None \<Rightarrow> s
      | Some us \<Rightarrow> topic_loop put_ok message us s)"

subsection \<open>Subscriptions\<close>

definition subscribe_to_topic :: "user_id \<Rightarrow> topic \<Rightarrow> 'm manager \<Rightarrow> 'm manager" where
  "subscribe_to_topic u T s =
     s\<lparr>user_subscriptions := (user_subscriptions s)
          (u \<mapsto> insert T (case user_subscriptions s u of None \<Rightarrow> {} | Some ts \<Rightarrow> ts)),
       topic_subscribers := (topic_subscribers s)
          (T \<mapsto> List.insert u (case topic_subscribers s T of None \<Rightarrow> [] | Some us \<Rightarrow> us))\<rparr>"

definition unsubscribe_from_topic :: "user_id \<Rightarrow> topic \<Rightarrow> 'm manager \<Rightarrow> 'm manager" where
  "unsubscribe_from_topic u T s =
     s\<lparr>user_subscriptions :=
          (case user_subscriptions s u of
             None \<Rightarrow> user_subscriptions s
           | Some ts \<Rightarrow> (user_subscriptions s)(u \<mapsto> ts - {T})),
       topic_subscribers :=
          (case topic_subscribers s T of
             None \<Rightarrow> topic_subscribers s
           | Some us \<Rightarrow> (topic_subscribers s)(T \<mapsto> removeAll u us))\<rparr>"

subsection \<open>What the claims speak about\<close>

text \<open>\<open>topicsOf\<close> and \<open>subscribersOf\<close>: the two directions of the subscription relation.\<close>

definition topicsOf :: "user_id \<Rightarrow> 'm manager \<Rightarrow> topic set" where
  "topicsOf u s = (case user_subscriptions s u of None \<Rightarrow> {} | Some ts \<Rightarrow> ts)"

definition subscribersOf :: "topic \<Rightarrow> 'm manager \<Rightarrow> user_id set" where
  "subscribersOf T s = (case topic_subscribers s T of None \<Rightarrow> {} | Some us \<Rightarrow> set us)"

definition symmetric :: "'m manager \<Rightarrow> bool" where
  "symmetric s = (\<forall>u T. (u \<in> subscribersOf T s) = (T \<in> topicsOf u s))"

text \<open>The Mailbox of a user: the items of the queue registered for it, oldest first.\<close>

definition mailbox :: "user_id \<Rightarrow> 'm manager \<Rightarrow> 'm option list option" where
  "mailbox u s = map_option (\<lambda>q. items (queues s q)) (send_queues s u)"

text \<open>An Active connection: \<open>user_id in self.active_connections\<close>.\<close>

definition connected :: "user_id \<Rightarrow> 'm manager \<Rightarrow> bool" where
  "connected u s = (map_of (active_connections s) u \<noteq> None)"

text \<open>
  What holds of a real manager and not of every value of the record: a dictionary has
  each key once, a user is connected exactly when it has a queue, two users never share
  a queue object, every registered queue has been allocated, and a set has each element
  once. The lemmas \<open>consistent_init\<close> to \<open>consistent_broadcast_to_topic\<close> below show that
  the manager starts so and that every operation keeps it so.
\<close>

definition consistent :: "'m manager \<Rightarrow> bool" where
  "consistent s =
     (distinct (map fst (active_connections s)) \<and>
      fst ` set (active_connections s) = dom (send_queues s) \<and>
      inj_on (send_queues s) (dom (send_queues s)) \<and>
      (\<forall>u q. send_queues s u = Some q \<longrightarrow> q < next_queue s) \<and>
      (\<forall>T us. topic_subscribers s T = Some us \<longrightarrow> distinct us))"

text \<open>Sequences of subscribe and unsubscribe calls.\<close>

datatype sub_op = Subscribe user_id topic | Unsubscribe user_id topic

fun apply_sub_op :: "sub_op \<Rightarrow> 'm manager \<Rightarrow> 'm manager" where
  "apply_sub_op (Subscribe u T) s = subscribe_to_topic u T s"
| "apply_sub_op (Unsubscribe u T) s = unsubscribe_from_topic u T s"

fun apply_sub_ops :: "sub_op list \<Rightarrow> 'm manager \<Rightarrow> 'm manager" where
  "apply_sub_ops [] s = s"
| "apply_sub_ops (x # xs) s = apply_sub_ops xs (apply_sub_op x s)"

text \<open>Several messages sent to one user, none drained in between; every \<open>put\<close> returns.\<close>

fun enqueue_all :: "'m option list \<Rightarrow> user_id \<Rightarrow> 'm manager \<Rightarrow> 'm manager" where
  "enqueue_all [] u s = s"
| "enqueue_all (m # ms) u s = enqueue_all ms u (send_personal_message True m u s)"

text \<open>
  The states of the examples: one user connected; the same user connected a second time
  on another transport; two users connected, the first subscribed to a topic.
\<close>

definition one_user :: "nat manager" where
  "one_user = connect 1 ''u1'' init"

definition reconnected :: "nat manager" where
  "reconnected = connect 2 ''u1'' one_user"

definition two_users :: "nat manager" where
  "two_users = subscribe_to_topic ''u1'' ''project-abc'' (connect 2 ''u2'' one_user)"

text \<open>
  The task \<open>t\<close> is the live worker of user \<open>u\<close>, whose queue is \<open>q\<close> and whose transport
  is \<open>ws\<close>.
\<close>

definition serving :: "user_id \<Rightarrow> tref \<Rightarrow> qref \<Rightarrow> websocket \<Rightarrow> 'm manager \<Rightarrow> bool" where
  "serving u t q ws s =
     ((tasks s t = Some (u, Ready) \<or> tasks s t = Some (u, Waiting q)) \<and>
      send_queues s u = Some q \<and> map_of (active_connections s) u = Some ws)"

text \<open>
  More states of the examples: \<open>u1\<close> connected with one message queued; the same after a
  scheduling of its worker in which the write fails.
\<close>

definition one_message :: "nat manager" where
  "one_message = send_personal_message True (Some 5) ''u1'' one_user"

definition write_failed :: "nat manager" where
  "write_failed = send_worker False 0 one_message"









text \<open>
  The connection of user \<open>u\<close> with task \<open>t\<close>, queue \<open>q\<close> and transport \<open>ws\<close> has its
  objects to itself: queue and task have been allocated, no other user is registered with
  the queue, the task or the transport, no other task waits on the queue, and every other
  task of \<open>u\<close> has finished. The last part is what a second \<open>connect\<close> for a connected
  user breaks, as it leaves the old worker alive.
\<close>

definition fenced :: "user_id \<Rightarrow> tref \<Rightarrow> qref \<Rightarrow> websocket \<Rightarrow> 'm manager \<Rightarrow> bool" where
  "fenced u t q ws s =
     (q < next_queue s \<and> t < next_task s \<and>
      (\<forall>v. v \<noteq> u \<longrightarrow> send_queues s v \<noteq> Some q \<and> send_tasks s v \<noteq> Some t \<and>
                       map_of (active_connections s) v \<noteq> Some ws) \<and>
      (\<forall>t' v st. tasks s t' = Some (v, st) \<and> t' \<noteq> t \<longrightarrow>
                       st \<noteq> Waiting q \<and> (v = u \<longrightarrow> st = Finished)))"

definition exclusive :: "user_id \<Rightarrow> tref \<Rightarrow> qref \<Rightarrow> websocket \<Rightarrow> 'm manager \<Rightarrow> bool" where
  "exclusive u t q ws s = (fenced u t q ws s \<and> send_tasks s u = Some t)"





section \<open>What each operation changes\<close>

lemma topicsOf_subscribe:
  "topicsOf v (subscribe_to_topic u T s) =
     (if v = u then insert T (topicsOf u s) else topicsOf v s)"
  by (simp add: topicsOf_def subscribe_to_topic_def split: option.splits)

lemma subscribersOf_subscribe:
  "subscribersOf R (subscribe_to_topic u T s) =
     (if R = T then insert u (subscribersOf T s) else subscribersOf R s)"
  by (simp add: subscribersOf_def subscribe_to_topic_def split: option.splits)

lemma topicsOf_unsubscribe:
  "topicsOf v (unsubscribe_from_topic u T s) =
     (if v = u then topicsOf u s - {T} else topicsOf v s)"
  by (simp add: topicsOf_def unsubscribe_from_topic_def split: option.splits)

lemma subscribersOf_unsubscribe:
  "subscribersOf R (unsubscribe_from_topic u T s) =
     (if R = T then subscribersOf T s - {u} else subscribersOf R s)"
  by (simp add: subscribersOf_def unsubscribe_from_topic_def split: option.splits)

lemma disconnect_fields:
  "send_queues (disconnect u s) = (send_queues s)(u := None)"
  "active_connections (disconnect u s) = AList.delete u (active_connections s)"
  "topic_subscribers (disconnect u s) = (\<lambda>T. map_option (removeAll u) (topic_subscribers s T))"
  "next_queue (disconnect u s) = next_queue s"
  "wire (disconnect u s) = wire s"
  "queues (disconnect u s) = queues s"
  by (simp_all add: disconnect_def Let_def cancel_def split: option.splits)

lemma worker_fields:
  "send_queues (send_worker ok t s) = send_queues s"
  "active_connections (send_worker ok t s) = active_connections s"
  "topic_subscribers (send_worker ok t s) = topic_subscribers s"
  "next_queue (send_worker ok t s) = next_queue s"
  "user_subscriptions (send_worker ok t s) = user_subscriptions s"
  "send_tasks (send_worker ok t s) = send_tasks s"
  by (simp_all add: send_worker_def get_from_def deliver_def task_done_def finish_def
      split: option.splits wstatus.splits list.splits prod.splits)

lemma send_queues_send_ok:
  "send_queues (send_personal_message True m u s) = send_queues s"
  by (simp add: send_personal_message_def split: option.splits)

lemma wire_send_step: "wire (send_personal_message b m v s) = wire s"
  by (simp add: send_personal_message_def disconnect_fields split: option.splits)

lemma connected_send_step:
  "w \<noteq> v \<Longrightarrow> connected w (send_personal_message b m v s) = connected w s"
  by (simp add: connected_def send_personal_message_def disconnect_fields split: option.splits)

lemma filter_update_one:
  "distinct (map fst al) \<Longrightarrow> filter (\<lambda>p. fst p = k) (AList.update k v al) = [(k, v)]"
  by (induction al) (auto simp: filter_empty_conv rev_image_eqI)

section \<open>The manager stays consistent\<close>

lemma consistent_init: "consistent init"
  by (simp add: consistent_def init_def)

lemma consistent_connect:
  assumes "consistent s"
  shows "consistent (connect ws u s)"
proof -
  have d: "distinct (map fst (active_connections s))"
    and k: "fst ` set (active_connections s) = dom (send_queues s)"
    and i: "inj_on (send_queues s) (dom (send_queues s))"
    and b: "\<And>v q. send_queues s v = Some q \<Longrightarrow> q < next_queue s"
    and t: "\<And>T us. topic_subscribers s T = Some us \<Longrightarrow> distinct us"
    using assms by (auto simp: consistent_def)
  have fresh: "send_queues s v \<noteq> Some (next_queue s)" for v
    using b [of v "next_queue s"] by auto
  have 1: "distinct (map fst (active_connections (connect ws u s)))"
    using d by (simp add: connect_def AList.distinct_update)
  have 2: "fst ` set (active_connections (connect ws u s)) = dom (send_queues (connect ws u s))"
    using k by (simp add: connect_def AList.dom_update)
  have 3: "inj_on (send_queues (connect ws u s)) (dom (send_queues (connect ws u s)))"
    using i fresh by (auto simp: connect_def inj_on_def dom_def)
  have 4: "\<forall>v q. send_queues (connect ws u s) v = Some q \<longrightarrow> q < next_queue (connect ws u s)"
    using b by (auto simp: connect_def less_Suc_eq)
  have 5: "\<forall>T us. topic_subscribers (connect ws u s) T = Some us \<longrightarrow> distinct us"
    using t by (simp add: connect_def)
  show ?thesis
    unfolding consistent_def using 1 2 3 4 5 by blast
qed

lemma consistent_disconnect:
  assumes "consistent s"
  shows "consistent (disconnect u s)"
proof -
  have d: "distinct (map fst (active_connections s))"
    and k: "fst ` set (active_connections s) = dom (send_queues s)"
    and i: "inj_on (send_queues s) (dom (send_queues s))"
    and b: "\<And>v q. send_queues s v = Some q \<Longrightarrow> q < next_queue s"
    and t: "\<And>T us. topic_subscribers s T = Some us \<Longrightarrow> distinct us"
    using assms by (auto simp: consistent_def)
  have 1: "distinct (map fst (active_connections (disconnect u s)))"
    using d by (simp add: disconnect_fields AList.distinct_delete)
  have "fst ` set (AList.delete u (active_connections s)) = fst ` set (active_connections s) - {u}"
    using AList.delete_keys [of u "active_connections s"]
    by (metis list.set_map set_removeAll)
  then have 2: "fst ` set (active_connections (disconnect u s)) = dom (send_queues (disconnect u s))"
    using k by (simp add: disconnect_fields)
  have 3: "inj_on (send_queues (disconnect u s)) (dom (send_queues (disconnect u s)))"
    using i by (auto simp: disconnect_fields inj_on_def dom_def)
  have 4: "\<forall>v q. send_queues (disconnect u s) v = Some q \<longrightarrow> q < next_queue (disconnect u s)"
    using b by (auto simp: disconnect_fields split: if_splits)
  have 5: "\<forall>T us. topic_subscribers (disconnect u s) T = Some us \<longrightarrow> distinct us"
    using t by (auto simp: disconnect_fields distinct_removeAll)
  show ?thesis
    unfolding consistent_def using 1 2 3 4 5 by blast
qed

lemma consistent_send: "consistent s \<Longrightarrow> consistent (send_personal_message b m u s)"
proof (cases "send_queues s u")
  case None
  assume "consistent s"
  then show ?thesis using None by (simp add: send_personal_message_def)
next
  case (Some q)
  assume c: "consistent s"
  show ?thesis
  proof (cases b)
    case True
    then show ?thesis using c Some
      by (simp add: send_personal_message_def consistent_def)
  next
    case False
    then show ?thesis using Some consistent_disconnect [OF c]
      by (simp add: send_personal_message_def)
  qed
qed

lemma consistent_subscribe: "consistent s \<Longrightarrow> consistent (subscribe_to_topic u T s)"
  unfolding consistent_def subscribe_to_topic_def
  by (simp split: option.splits)

lemma consistent_unsubscribe: "consistent s \<Longrightarrow> consistent (unsubscribe_from_topic u T s)"
  unfolding consistent_def unsubscribe_from_topic_def
  by (simp split: option.splits add: distinct_removeAll)

lemma consistent_worker: "consistent s \<Longrightarrow> consistent (send_worker ok t s)"
  by (simp add: consistent_def worker_fields)

lemma consistent_broadcast: "consistent s \<Longrightarrow> consistent (broadcast put_ok m s)"
proof -
  have "consistent s \<Longrightarrow> consistent (broadcast_loop put_ok m us s)" for us
    by (induction us arbitrary: s) (simp_all add: consistent_send)
  then show "consistent s \<Longrightarrow> consistent (broadcast put_ok m s)"
    by (simp add: broadcast_def)
qed

lemma consistent_broadcast_to_topic:
  "consistent s \<Longrightarrow> consistent (broadcast_to_topic put_ok m T s)"
proof -
  have "consistent s \<Longrightarrow> consistent (topic_loop put_ok m us s)" for us
    by (induction us arbitrary: s) (simp_all add: consistent_send)
  then show "consistent s \<Longrightarrow> consistent (broadcast_to_topic put_ok m T s)"
    by (simp add: broadcast_to_topic_def split: option.splits)
qed

lemma consistent_one_user: "consistent one_user"
  unfolding one_user_def by (intro consistent_connect consistent_init)

lemma consistent_two_users: "consistent two_users"
  unfolding two_users_def
  by (intro consistent_subscribe consistent_connect consistent_one_user)

section \<open>Connecting again\<close>

text \<open>
  Claim C1, as the code has it. \<open>connect\<close> never calls \<open>disconnect\<close>. Whatever was
  registered for the user before, after \<open>connect(ws, u)\<close> the registry holds one entry for
  \<open>u\<close>, bound to \<open>ws\<close>, with a fresh empty queue and a fresh worker task ready to run. The
  only call made on a transport is \<open>accept\<close> on the new one, every task that existed
  keeps the status it had, and every queue object that existed keeps its content: the
  old connection is overwritten, not disconnected.
\<close>

theorem connect_replaces_without_disconnect:
  "distinct (map fst (active_connections s)) \<Longrightarrow>
   filter (\<lambda>p. fst p = u) (active_connections (connect ws u s)) = [(u, ws)] \<and>
   map_of (active_connections (connect ws u s)) u = Some ws \<and>
   mailbox u (connect ws u s) = Some [] \<and>
   send_tasks (connect ws u s) u = Some (next_task s) \<and>
   tasks (connect ws u s) (next_task s) = Some (u, Ready) \<and>
   wire (connect ws u s) = wire s @ [Accept ws] \<and>
   (\<forall>t. t \<noteq> next_task s \<longrightarrow> tasks (connect ws u s) t = tasks s t) \<and>
   (\<forall>q. q \<noteq> next_queue s \<longrightarrow> queues (connect ws u s) q = queues s q)"
  by (simp add: filter_update_one connect_def mailbox_def new_queue_def AList.update_conv')

text \<open>
  At the state where \<open>u1\<close> is connected on transport 1 and connects again on transport 2:
  one entry, bound to 2, served by task 1; task 0, the old worker, is as it was.
\<close>

theorem connect_replaces_without_disconnect_witness:
  "distinct (map fst (active_connections one_user)) \<and>
   active_connections reconnected = [(''u1'', 2)] \<and>
   send_tasks reconnected ''u1'' = Some 1 \<and>
   tasks reconnected 0 = tasks one_user 0 \<and>
   queues reconnected 0 = queues one_user 0"
  using connect_replaces_without_disconnect [of one_user "''u1''" 2]
  by (simp add: reconnected_def) (simp add: one_user_def connect_def init_def)

text \<open>
  Claim C1 as stated fails there: the old connection of \<open>u1\<close> was on transport 1 with
  worker task 0; after the second \<open>connect\<close> that task is still ready to run, scheduling
  it leaves it suspended and not finished, and transport 1 was never closed.
\<close>

theorem reconnect_disconnects_old_counterexample:
  "map_of (active_connections one_user) ''u1'' = Some 1 \<and>
   send_tasks one_user ''u1'' = Some 0 \<and>
   tasks reconnected 0 = Some (''u1'', Ready) \<and>
   tasks (send_worker True 0 reconnected) 0 \<noteq> Some (''u1'', Finished) \<and>
   Close 1 \<notin> set (wire reconnected)"
  by (simp add: reconnected_def one_user_def connect_def init_def send_worker_def
      get_from_def new_queue_def)

section \<open>The mailbox\<close>

text \<open>
  Claim C2, as the code has it. The queue is made by \<open>asyncio.Queue()\<close> and has no
  capacity: enqueuing never waits and never evicts. Any number of messages sent to a user
  that has a queue, none drained in between, are all in the queue afterwards, behind what
  was there, in the order sent.
\<close>

theorem mailbox_unbounded:
  "send_queues s u = Some q \<Longrightarrow>
   mailbox u (enqueue_all ms u s) = Some (items (queues s q) @ ms)"
proof (induction ms arbitrary: s)
  case Nil
  then show ?case by (simp add: mailbox_def)
next
  case (Cons m ms)
  have "send_queues (send_personal_message True m u s) u = Some q"
    using Cons.prems by (simp add: send_queues_send_ok)
  from Cons.IH [OF this] show ?case
    using Cons.prems by (simp add: send_personal_message_def put_def)
qed

theorem mailbox_unbounded_witness:
  "send_queues one_user ''u1'' = Some 0 \<and>
   mailbox ''u1'' (enqueue_all [Some 1, Some 2, Some 3] ''u1'' one_user)
     = Some [Some 1, Some 2, Some 3]"
  using mailbox_unbounded [of one_user "''u1''" 0 "[Some 1, Some 2, Some 3]"]
  by (simp add: one_user_def connect_def init_def new_queue_def)

text \<open>
  Claim C2 as stated fails: three messages enqueued before any is drained are all three
  in the queue, the oldest included, not the two most recent.
\<close>

theorem mailbox_drop_oldest_counterexample:
  "mailbox ''u1'' (enqueue_all [Some 1, Some 2, Some 3] ''u1'' one_user)
     = Some [Some 1, Some 2, Some 3] \<and>
   mailbox ''u1'' (enqueue_all [Some 1, Some 2, Some 3] ''u1'' one_user)
     \<noteq> Some [Some 2, Some 3]"
  by (simp add: mailbox_def send_personal_message_def put_def one_user_def connect_def
      init_def new_queue_def)

section \<open>Sending to a user that is gone\<close>

lemma send_queues_disconnect: "send_queues (disconnect u s) u = None"
  by (simp add: disconnect_fields)

text \<open>
  Claim C4. After \<open>disconnect(u)\<close>, \<open>send_personal_message(m, u)\<close> returns the state it
  was given, whether or not \<open>put\<close> could have succeeded; and so it does for every user
  that has no queue. The function returns a state in every case: nothing is raised.
\<close>

theorem send_after_disconnect_noop:
  "send_personal_message put_ok message u (disconnect u s) = disconnect u s \<and>
   (send_queues s u = None \<longrightarrow> send_personal_message put_ok message u s = s)"
  by (simp add: send_personal_message_def send_queues_disconnect)

theorem send_after_disconnect_noop_witness:
  "send_queues (disconnect ''u1'' one_user) ''u1'' = None \<and>
   send_personal_message True (Some 5) ''u1'' (disconnect ''u1'' one_user)
     = disconnect ''u1'' one_user"
  using send_after_disconnect_noop [of True "Some 5" "''u1''" "disconnect ''u1'' one_user"]
  by (simp add: send_queues_disconnect)

section \<open>Subscriptions\<close>

lemma symmetric_subscribe: "symmetric s \<Longrightarrow> symmetric (subscribe_to_topic u T s)"
  unfolding symmetric_def by (simp add: topicsOf_subscribe subscribersOf_subscribe)

lemma symmetric_unsubscribe: "symmetric s \<Longrightarrow> symmetric (unsubscribe_from_topic u T s)"
  unfolding symmetric_def by (auto simp add: topicsOf_unsubscribe subscribersOf_unsubscribe)

lemma symmetric_apply_sub_op: "symmetric s \<Longrightarrow> symmetric (apply_sub_op x s)"
  by (cases x) (simp_all add: symmetric_subscribe symmetric_unsubscribe)

lemma symmetric_init: "symmetric init"
  by (simp add: symmetric_def subscribersOf_def topicsOf_def init_def)

text \<open>
  Claim C5. From a state where \<open>u \<in> subscribersOf T\<close> holds exactly when
  \<open>T \<in> topicsOf u\<close>, every sequence of subscribe and unsubscribe calls leads to a state
  where it holds again.
\<close>

theorem subscription_symmetry:
  "symmetric s \<Longrightarrow> symmetric (apply_sub_ops ops s)"
  by (induction ops arbitrary: s) (simp_all add: symmetric_apply_sub_op)

theorem subscription_symmetry_witness:
  "symmetric (init :: nat manager) \<and>
   symmetric (apply_sub_ops [Subscribe ''u1'' ''project-abc'', Subscribe ''u2'' ''project-abc'',
      Unsubscribe ''u1'' ''project-abc''] (init :: nat manager))"
  using subscription_symmetry [of "init :: nat manager"
      "[Subscribe ''u1'' ''project-abc'', Subscribe ''u2'' ''project-abc'',
        Unsubscribe ''u1'' ''project-abc'']"]
  by (simp add: symmetric_init)

text \<open>
  Claim C8, as the code has it. Neither function looks at \<open>active_connections\<close>. Whether
  or not the user is connected, \<open>subscribe_to_topic\<close> puts the topic under the user and
  the user under the topic, creating either entry when it is missing, and
  \<open>unsubscribe_from_topic\<close> takes them out; the registry, the queues, the tasks and the
  wire are not touched.
\<close>

theorem subscribe_without_connection:
  "topicsOf u (subscribe_to_topic u T s) = insert T (topicsOf u s) \<and>
   subscribersOf T (subscribe_to_topic u T s) = insert u (subscribersOf T s) \<and>
   topicsOf u (unsubscribe_from_topic u T s) = topicsOf u s - {T} \<and>
   subscribersOf T (unsubscribe_from_topic u T s) = subscribersOf T s - {u} \<and>
   connected v (subscribe_to_topic u T s) = connected v s \<and>
   connected v (unsubscribe_from_topic u T s) = connected v s \<and>
   mailbox v (subscribe_to_topic u T s) = mailbox v s \<and>
   mailbox v (unsubscribe_from_topic u T s) = mailbox v s \<and>
   tasks (subscribe_to_topic u T s) = tasks s \<and>
   tasks (unsubscribe_from_topic u T s) = tasks s \<and>
   wire (subscribe_to_topic u T s) = wire s \<and>
   wire (unsubscribe_from_topic u T s) = wire s"
  by (simp add: topicsOf_subscribe subscribersOf_subscribe topicsOf_unsubscribe
      subscribersOf_unsubscribe)
     (simp add: subscribe_to_topic_def unsubscribe_from_topic_def connected_def mailbox_def)

text \<open>
  Claim C8 as stated fails: in the initial state \<open>u1\<close> has no connection, and
  subscribing it changes both maps; unsubscribing it, still without a connection, changes
  them again.
\<close>

theorem subscribe_validated_counterexample:
  "\<not> connected ''u1'' (init :: nat manager) \<and>
   topicsOf ''u1'' (subscribe_to_topic ''u1'' ''T'' (init :: nat manager))
     \<noteq> topicsOf ''u1'' (init :: nat manager) \<and>
   subscribersOf ''T'' (subscribe_to_topic ''u1'' ''T'' (init :: nat manager))
     \<noteq> subscribersOf ''T'' (init :: nat manager) \<and>
   \<not> connected ''u1'' (subscribe_to_topic ''u1'' ''T'' (init :: nat manager)) \<and>
   topicsOf ''u1'' (unsubscribe_from_topic ''u1'' ''T''
       (subscribe_to_topic ''u1'' ''T'' (init :: nat manager)))
     \<noteq> topicsOf ''u1'' (subscribe_to_topic ''u1'' ''T'' (init :: nat manager))"
  by (simp add: topicsOf_subscribe subscribersOf_subscribe topicsOf_unsubscribe)
     (simp add: init_def topicsOf_def subscribersOf_def connected_def subscribe_to_topic_def)

text \<open>
  Claim C10. When \<open>u\<close> is among the subscribers of \<open>T\<close>, \<open>connect(ws, u)\<close> sets the topics
  of \<open>u\<close> to the empty set and leaves \<open>u\<close> among the subscribers of \<open>T\<close>: afterwards
  \<open>u \<in> subscribersOf T\<close> holds, \<open>T \<in> topicsOf u\<close> does not, and the state is not symmetric.
\<close>

theorem reconnect_breaks_symmetry:
  "u \<in> subscribersOf T s \<Longrightarrow>
     topicsOf u (connect ws u s) = {} \<and> u \<in> subscribersOf T (connect ws u s)
     \<and> T \<notin> topicsOf u (connect ws u s) \<and> \<not> symmetric (connect ws u s)"
proof -
  assume a: "u \<in> subscribersOf T s"
  have 1: "topicsOf u (connect ws u s) = {}"
    by (simp add: topicsOf_def connect_def)
  have 2: "u \<in> subscribersOf T (connect ws u s)"
    using a by (simp add: subscribersOf_def connect_def)
  from 1 2 have "\<not> symmetric (connect ws u s)"
    unfolding symmetric_def by blast
  with 1 2 show ?thesis by simp
qed

theorem reconnect_breaks_symmetry_witness:
  "''u1'' \<in> subscribersOf ''project-abc'' two_users \<and>
   ''project-abc'' \<in> topicsOf ''u1'' two_users \<and>
   topicsOf ''u1'' (connect 3 ''u1'' two_users) = {} \<and>
   ''u1'' \<in> subscribersOf ''project-abc'' (connect 3 ''u1'' two_users)"
  using reconnect_breaks_symmetry [of "''u1''" "''project-abc''" two_users 3]
  by (simp add: two_users_def topicsOf_subscribe subscribersOf_subscribe)

section \<open>Fan-out\<close>

lemma mailbox_send_step:
  assumes "inj_on (send_queues s) (dom (send_queues s))"
  shows "mailbox w (send_personal_message b m v s) =
     (if w = v then (if b then map_option (\<lambda>xs. xs @ [m]) (mailbox v s) else None)
      else mailbox w s)"
proof (cases "send_queues s v")
  case None
  then show ?thesis by (simp add: send_personal_message_def mailbox_def)
next
  case (Some q)
  show ?thesis
  proof (cases b)
    case True
    have "send_queues s w \<noteq> Some q" if "w \<noteq> v"
      using assms Some that by (auto simp: inj_on_def dom_def)
    then show ?thesis using Some True
      by (cases "send_queues s w")
         (auto simp: send_personal_message_def mailbox_def put_def)
  next
    case False
    then show ?thesis using Some
      by (simp add: send_personal_message_def mailbox_def disconnect_fields)
  qed
qed

lemma inj_send_step:
  "inj_on (send_queues s) (dom (send_queues s)) \<Longrightarrow>
   inj_on (send_queues (send_personal_message b m v s))
     (dom (send_queues (send_personal_message b m v s)))"
  by (auto simp: send_personal_message_def disconnect_fields inj_on_def dom_def
      split: option.splits if_splits)

lemma mailbox_broadcast_loop:
  "inj_on (send_queues s) (dom (send_queues s)) \<Longrightarrow> distinct us \<Longrightarrow>
   mailbox w (broadcast_loop put_ok m us s) =
     (if w \<in> set us then (if put_ok w then map_option (\<lambda>xs. xs @ [m]) (mailbox w s) else None)
      else mailbox w s)"
proof (induction us arbitrary: s)
  case Nil
  then show ?case by simp
next
  case (Cons v us)
  let ?s1 = "send_personal_message (put_ok v) m v s"
  have inj1: "inj_on (send_queues ?s1) (dom (send_queues ?s1))"
    using Cons.prems(1) by (rule inj_send_step)
  have d: "distinct us" "v \<notin> set us" using Cons.prems(2) by simp_all
  show ?case
    using Cons.IH [OF inj1 d(1)] d(2) mailbox_send_step [OF Cons.prems(1)]
    by auto
qed

lemma wire_broadcast_loop: "wire (broadcast_loop put_ok m us s) = wire s"
  by (induction us arbitrary: s) (simp_all add: wire_send_step)

lemma mailbox_topic_loop:
  "inj_on (send_queues s) (dom (send_queues s)) \<Longrightarrow> distinct us \<Longrightarrow>
   mailbox w (topic_loop put_ok m us s) =
     (if w \<in> set us \<and> connected w s
      then (if put_ok w then map_option (\<lambda>xs. xs @ [m]) (mailbox w s) else None)
      else mailbox w s)"
proof (induction us arbitrary: s)
  case Nil
  then show ?case by simp
next
  case (Cons v us)
  let ?s1 = "if map_of (active_connections s) v \<noteq> None
             then send_personal_message (put_ok v) m v s else s"
  have inj1: "inj_on (send_queues ?s1) (dom (send_queues ?s1))"
    using Cons.prems(1) by (simp add: inj_send_step)
  have d: "distinct us" "v \<notin> set us" using Cons.prems(2) by simp_all
  have c: "connected w ?s1 = connected w s" if "w \<noteq> v"
    using that by (simp add: connected_send_step)
  show ?case
  proof (cases "w = v")
    case True
    then show ?thesis
      using Cons.IH [OF inj1 d(1)] d(2) mailbox_send_step [OF Cons.prems(1), of v]
      by (simp add: connected_def)
  next
    case False
    then show ?thesis
      using Cons.IH [OF inj1 d(1)] mailbox_send_step [OF Cons.prems(1), of w] c
      by simp
  qed
qed

lemma wire_topic_loop: "wire (topic_loop put_ok m us s) = wire s"
  by (induction us arbitrary: s) (simp_all add: wire_send_step)

lemma connected_has_mailbox:
  "fst ` set (active_connections s) = dom (send_queues s) \<Longrightarrow> connected u s \<Longrightarrow>
   \<exists>xs. mailbox u s = Some xs"
proof -
  assume dom: "fst ` set (active_connections s) = dom (send_queues s)" and "connected u s"
  then have "u \<in> fst ` set (active_connections s)"
    by (simp add: connected_def map_of_eq_None_iff)
  then show ?thesis using dom by (auto simp: mailbox_def dom_def)
qed

text \<open>
  Claim C7. In a consistent manager, \<open>broadcast\<close> appends the message to the queue of
  every connected user whose \<open>put\<close> succeeds; a user whose \<open>put\<close> raises is disconnected
  inside \<open>send_personal_message\<close> and the loop goes on to the remaining users; users that
  are not connected keep their mailbox; nothing is written to a transport. \<open>broadcast\<close>
  returns a state for every \<open>put_ok\<close>: no failure reaches its caller.
\<close>

theorem broadcast_reaches_every_connection:
  assumes "consistent s"
  shows "wire (broadcast put_ok m s) = wire s \<and>
    (\<forall>u. connected u s \<longrightarrow>
       (if put_ok u
        then (\<exists>xs. mailbox u s = Some xs \<and> mailbox u (broadcast put_ok m s) = Some (xs @ [m]))
        else mailbox u (broadcast put_ok m s) = None)) \<and>
    (\<forall>u. \<not> connected u s \<longrightarrow> mailbox u (broadcast put_ok m s) = mailbox u s)"
proof -
  have inj: "inj_on (send_queues s) (dom (send_queues s))"
    and dist: "distinct (map fst (active_connections s))"
    and dom: "fst ` set (active_connections s) = dom (send_queues s)"
    using assms by (simp_all add: consistent_def)
  have keys: "connected u s = (u \<in> set (map fst (active_connections s)))" for u
    by (auto simp: connected_def map_of_eq_None_iff)
  show ?thesis
    unfolding broadcast_def
    using mailbox_broadcast_loop [OF inj dist, of _ put_ok m] keys
      connected_has_mailbox [OF dom]
    by (auto simp: wire_broadcast_loop)
qed

text \<open>
  Two users connected, \<open>put\<close> raising for \<open>u1\<close> only: \<open>u2\<close> receives the message in its
  queue, \<open>u1\<close> is gone.
\<close>

theorem broadcast_reaches_every_connection_witness:
  "consistent two_users \<and> connected ''u1'' two_users \<and> connected ''u2'' two_users \<and>
   mailbox ''u2'' (broadcast (\<lambda>u. u \<noteq> ''u1'') (Some 9) two_users) = Some [Some 9] \<and>
   mailbox ''u1'' (broadcast (\<lambda>u. u \<noteq> ''u1'') (Some 9) two_users) = None"
proof -
  have c: "connected ''u1'' two_users" "connected ''u2'' two_users"
    by (simp_all add: connected_def two_users_def one_user_def subscribe_to_topic_def
        connect_def init_def)
  have m: "mailbox ''u2'' two_users = Some []"
    by (simp add: mailbox_def two_users_def one_user_def subscribe_to_topic_def
        connect_def init_def new_queue_def)
  from broadcast_reaches_every_connection [OF consistent_two_users, of "\<lambda>u. u \<noteq> ''u1''" "Some 9"]
  have "\<forall>u. connected u two_users \<longrightarrow>
       (if u \<noteq> ''u1''
        then (\<exists>xs. mailbox u two_users = Some xs \<and>
                mailbox u (broadcast (\<lambda>u. u \<noteq> ''u1'') (Some 9) two_users) = Some (xs @ [Some 9]))
        else mailbox u (broadcast (\<lambda>u. u \<noteq> ''u1'') (Some 9) two_users) = None)"
    by simp
  from this [rule_format, OF c(1)] this [rule_format, OF c(2)] show ?thesis
    using c m consistent_two_users by simp
qed

text \<open>
  Claim C6. \<open>broadcast_to_topic\<close> returns the state unchanged when the topic has no
  entry, and never writes to a transport. In a consistent manager, every user that is
  not among the subscribers of the topic at the call keeps its mailbox, and every
  subscriber that is connected and whose \<open>put\<close> succeeds has the message appended to its
  queue.
\<close>

theorem topic_isolation:
  "(topic_subscribers s T = None \<longrightarrow> broadcast_to_topic put_ok m T s = s) \<and>
   wire (broadcast_to_topic put_ok m T s) = wire s \<and>
   (consistent s \<longrightarrow>
      (\<forall>v. v \<notin> subscribersOf T s \<longrightarrow> mailbox v (broadcast_to_topic put_ok m T s) = mailbox v s) \<and>
      (\<forall>u. u \<in> subscribersOf T s \<and> connected u s \<and> put_ok u \<longrightarrow>
         (\<exists>xs. mailbox u s = Some xs \<and>
               mailbox u (broadcast_to_topic put_ok m T s) = Some (xs @ [m]))))"
proof (cases "topic_subscribers s T")
  case None
  then show ?thesis
    by (simp add: broadcast_to_topic_def subscribersOf_def)
next
  case (Some us)
  have w: "wire (broadcast_to_topic put_ok m T s) = wire s"
    using Some by (simp add: broadcast_to_topic_def wire_topic_loop)
  have "(\<forall>v. v \<notin> subscribersOf T s \<longrightarrow> mailbox v (broadcast_to_topic put_ok m T s) = mailbox v s) \<and>
      (\<forall>u. u \<in> subscribersOf T s \<and> connected u s \<and> put_ok u \<longrightarrow>
         (\<exists>xs. mailbox u s = Some xs \<and>
               mailbox u (broadcast_to_topic put_ok m T s) = Some (xs @ [m])))"
    if c: "consistent s"
  proof -
    have inj: "inj_on (send_queues s) (dom (send_queues s))"
      and dom: "fst ` set (active_connections s) = dom (send_queues s)"
      and dist: "distinct us"
      using c Some by (simp_all add: consistent_def)
    show ?thesis
      using mailbox_topic_loop [OF inj dist, of _ put_ok m] connected_has_mailbox [OF dom] Some
      by (auto simp: broadcast_to_topic_def subscribersOf_def)
  qed
  then show ?thesis using Some w by simp
qed

text \<open>
  The scenario of the specification: \<open>u1\<close> and \<open>u2\<close> connected, \<open>u1\<close> subscribed to
  \<open>project-abc\<close>. The message reaches the queue of \<open>u1\<close> and not that of \<open>u2\<close>; a
  broadcast to a topic without entry changes nothing.
\<close>

theorem topic_isolation_witness:
  "consistent two_users \<and>
   ''u2'' \<notin> subscribersOf ''project-abc'' two_users \<and>
   mailbox ''u2'' (broadcast_to_topic (\<lambda>u. True) (Some 9) ''project-abc'' two_users) = Some [] \<and>
   ''u1'' \<in> subscribersOf ''project-abc'' two_users \<and> connected ''u1'' two_users \<and>
   mailbox ''u1'' (broadcast_to_topic (\<lambda>u. True) (Some 9) ''project-abc'' two_users)
     = Some [Some 9] \<and>
   topic_subscribers two_users ''other'' = None \<and>
   broadcast_to_topic (\<lambda>u. True) (Some 9) ''other'' two_users = two_users"
proof -
  have s: "''u2'' \<notin> subscribersOf ''project-abc'' two_users"
    "''u1'' \<in> subscribersOf ''project-abc'' two_users"
    "topic_subscribers two_users ''other'' = None"
    by (simp_all add: subscribersOf_def two_users_def one_user_def subscribe_to_topic_def
        connect_def init_def)
  have c: "connected ''u1'' two_users"
    by (simp add: connected_def two_users_def one_user_def subscribe_to_topic_def
        connect_def init_def)
  have m: "mailbox ''u2'' two_users = Some []" "mailbox ''u1'' two_users = Some []"
    by (simp_all add: mailbox_def two_users_def one_user_def subscribe_to_topic_def
        connect_def init_def new_queue_def)
  have o: "broadcast_to_topic (\<lambda>u. True) (Some 9) ''other'' two_users = two_users"
    using topic_isolation [of two_users "''other''" "\<lambda>u. True" "Some 9"] s(3) by simp
  from topic_isolation [of two_users "''project-abc''" "\<lambda>u. True" "Some 9"]
  have a: "\<forall>v. v \<notin> subscribersOf ''project-abc'' two_users \<longrightarrow>
          mailbox v (broadcast_to_topic (\<lambda>u. True) (Some 9) ''project-abc'' two_users)
            = mailbox v two_users"
    and b: "\<forall>u. u \<in> subscribersOf ''project-abc'' two_users \<and> connected u two_users \<and> True \<longrightarrow>
         (\<exists>xs. mailbox u two_users = Some xs \<and>
               mailbox u (broadcast_to_topic (\<lambda>u. True) (Some 9) ''project-abc'' two_users)
                 = Some (xs @ [Some 9]))"
    using consistent_two_users by simp_all
  from a [rule_format, OF s(1)] b [rule_format, of "''u1''"] show ?thesis
    using s c m o consistent_two_users by simp
qed

section \<open>Order of delivery\<close>










lemma fencedI:
  assumes "q < next_queue s" "t < next_task s"
    "\<And>v. v \<noteq> u \<Longrightarrow> send_queues s v \<noteq> Some q"
    "\<And>v. v \<noteq> u \<Longrightarrow> send_tasks s v \<noteq> Some t"
    "\<And>v. v \<noteq> u \<Longrightarrow> map_of (active_connections s) v \<noteq> Some ws"
    "\<And>t' v st. tasks s t' = Some (v, st) \<Longrightarrow> t' \<noteq> t \<Longrightarrow> st \<noteq> Waiting q"
    "\<And>t' st. tasks s t' = Some (u, st) \<Longrightarrow> t' \<noteq> t \<Longrightarrow> st = Finished"
  shows "fenced u t q ws s"
  unfolding fenced_def using assms by blast

subsection \<open>connect\<close>


subsection \<open>disconnect\<close>






subsection \<open>send\<close>







subsection \<open>workers\<close>














subsection \<open>any event\<close>









text \<open>
  A connection is in that situation when \<open>connect\<close> makes it for a user none of whose
  earlier workers is alive, on a transport that no other user holds.
\<close>

lemma exclusive_after_connect:
  assumes "\<And>v q. send_queues s v = Some q \<Longrightarrow> q < next_queue s"
    and "\<And>v t. send_tasks s v = Some t \<Longrightarrow> t < next_task s"
    and "\<And>t v q. tasks s t = Some (v, Waiting q) \<Longrightarrow> q < next_queue s"
    and "\<And>t st. tasks s t = Some (u, st) \<Longrightarrow> st = Finished"
    and "\<And>v. v \<noteq> u \<Longrightarrow> map_of (active_connections s) v \<noteq> Some ws"
  shows "serving u (next_task s) (next_queue s) ws (connect ws u s) \<and>
         exclusive u (next_task s) (next_queue s) ws (connect ws u s)"
proof -
  have 1: "serving u (next_task s) (next_queue s) ws (connect ws u s)"
    by (simp add: serving_def connect_def AList.update_conv')
  have 2: "fenced u (next_task s) (next_queue s) ws (connect ws u s)"
  proof (rule fencedI)
    show "next_queue s < next_queue (connect ws u s)" by (simp add: connect_def)
    show "next_task s < next_task (connect ws u s)" by (simp add: connect_def)
    show "send_queues (connect ws u s) v \<noteq> Some (next_queue s)" if "v \<noteq> u" for v
      using that assms(1) [of v "next_queue s"] by (auto simp: connect_def)
    show "send_tasks (connect ws u s) v \<noteq> Some (next_task s)" if "v \<noteq> u" for v
      using that assms(2) [of v "next_task s"] by (auto simp: connect_def)
    show "map_of (active_connections (connect ws u s)) v \<noteq> Some ws" if "v \<noteq> u" for v
      using that assms(5) [of v] by (simp add: connect_def AList.update_conv')
    show "st \<noteq> Waiting (next_queue s)"
      if "tasks (connect ws u s) t' = Some (v, st)" "t' \<noteq> next_task s" for t' v st
      using that assms(3) [of t' v "next_queue s"] by (auto simp: connect_def)
    show "st = Finished"
      if "tasks (connect ws u s) t' = Some (u, st)" "t' \<noteq> next_task s" for t' st
      using that assms(4) [of t' st] by (auto simp: connect_def)
  qed
  show ?thesis using 1 2 by (simp add: exclusive_def connect_def)
qed






section \<open>A failed write\<close>

text \<open>
  Claim C9, at the input where the code departs from it. \<open>u1\<close> is connected on transport
  1 with worker task 0 and has one message queued; the write of that message fails. The
  worker is finished and nothing was written, as the claim says; but the user is still
  connected, with its transport, its queue and its task registered, so no disconnection
  was asked for. A message sent afterwards is accepted into the queue and stays there:
  scheduling the worker again writes nothing.
\<close>

theorem write_failure_leaves_connection:
  "tasks write_failed 0 = Some (''u1'', Finished) \<and>
   wire write_failed = [Accept 1] \<and>
   connected ''u1'' write_failed \<and>
   active_connections write_failed = [(''u1'', 1)] \<and>
   send_queues write_failed ''u1'' = Some 0 \<and>
   send_tasks write_failed ''u1'' = Some 0 \<and>
   mailbox ''u1'' (send_worker True 0 (send_personal_message True (Some 6) ''u1'' write_failed))
     = Some [Some 6] \<and>
   wire (send_worker True 0 (send_personal_message True (Some 6) ''u1'' write_failed))
     = [Accept 1]"
  by (simp add: write_failed_def one_message_def one_user_def connect_def init_def
      send_worker_def get_from_def new_queue_def send_personal_message_def put_def
      deliver_def finish_def mailbox_def connected_def)

end
